theory Spec2Isabelle
  imports Complex_Main "HOL-Library.Log_Nat"
begin

section \<open>Data model (types.ts)\<close>

text \<open>
  The extraction pipeline delivers word entries with five fields; a flashcard is such an
  entry extended by identity, bookkeeping and scheduling fields.  The object spread
  \<^verbatim>\<open>{...word, id: ..., userId, ...}\<close> of \<^verbatim>\<open>initializeCard\<close> is therefore a
  record extension.  The field \<^verbatim>\<open>id\<close> is called \<open>id_card\<close> and the field
  \<^verbatim>\<open>context\<close> is called \<open>context_ex\<close>, since the plain names are taken in HOL.

  The numbers that hold timestamps, counters and whole days are integer-valued; their
  fields are integers, and the arithmetic on them is that of doubles (next section).  The
  two columns declared \<^verbatim>\<open>REAL\<close> are reals; the scheduler only copies them.
\<close>

datatype cefr = CEFR_C1 | CEFR_C2

record WordEntry =
  word :: string
  pronunciation :: string
  vietnameseMeaning :: string
  context_ex :: string
  difficulty :: cefr

record Flashcard = WordEntry +
  id_card :: string
  userId :: string
  source :: string
  createdAt :: int
  updatedAt :: int
  due :: int
  stability :: real
  difficultyRating :: real
  elapsedDays :: int
  scheduledDays :: int
  reps :: int
  state :: int

text \<open>
  \<^verbatim>\<open>enum Difficulty { AGAIN = 1, HARD = 2, GOOD = 3, EASY = 4 }\<close>: a numeric enum, so
  at run time a rating is a number and any number can reach \<^verbatim>\<open>scheduleReview\<close>.
\<close>

definition AGAIN :: int where "AGAIN = 1"
definition HARD :: int where "HARD = 2"
definition GOOD :: int where "GOOD = 3"
definition EASY :: int where "EASY = 4"

section \<open>JavaScript numbers\<close>

text \<open>
  A JavaScript number is an IEEE 754 double: a sign, 53 significant bits and a binary
  exponent.  An integer is a double when it has at most 53 significant bits, so every
  integer up to \<open>2^53\<close> in magnitude is one, and beyond that only every second, then
  every fourth integer, and so on.  \<open>ulp_int n\<close> is the distance between neighbouring
  doubles at the magnitude of \<open>n\<close>, and \<open>round53 n\<close> is the double nearest to \<open>n\<close>,
  a tie going to the neighbour with the even significand.  The exponent is not bounded
  in this model: it follows the machine as long as no value reaches \<open>2^1024\<close>.
\<close>

definition ulp_int :: "int \<Rightarrow> int" where
  "ulp_int n = 2 ^ nat (bitlen \<bar>n\<bar> - 53)"

definition round53 :: "int \<Rightarrow> int" where
  "round53 n =
     (let q = ulp_int n; d = n div q; r = n mod q
      in q * (if 2 * r < q then d else if q < 2 * r then d + 1
              else if even d then d else d + 1))"

definition is_double :: "int \<Rightarrow> bool" where
  "is_double n \<longleftrightarrow> round53 n = n"

text \<open>
  \<^verbatim>\<open>a + b\<close> and \<^verbatim>\<open>a * b\<close> on integer-valued numbers: the exact result, rounded
  to the nearest double.  The integers of HOL also contain numbers that are no doubles; no
  field of a flashcard and no clock reading can hold one, and on such operands the
  operations are taken to be exact, which keeps a statement about all integers free of a
  side condition that every run satisfies.
\<close>

definition js_add :: "int \<Rightarrow> int \<Rightarrow> int" where
  "js_add a b = (if is_double a \<and> is_double b then round53 (a + b) else a + b)"

definition js_mul :: "int \<Rightarrow> int \<Rightarrow> int" where
  "js_mul a b = (if is_double a \<and> is_double b then round53 (a * b) else a * b)"

text \<open>
  \<^verbatim>\<open>a * x\<close> for a literal \<open>x\<close> that is the double \<open>m / 2^k\<close>: the exact product is
  \<open>a * m / 2^k\<close>, and rounding it to 53 significant bits rounds \<open>a * m\<close>.  The literal
  \<^verbatim>\<open>1.2\<close> denotes the double \<open>5404319552844595 / 2^52\<close>, which is a little less than
  \<open>6/5\<close>; \<^verbatim>\<open>2.5\<close> is \<open>5 / 2\<close> and \<^verbatim>\<open>4\<close> is itself.
\<close>

definition js_mul_frac :: "int \<Rightarrow> int \<Rightarrow> nat \<Rightarrow> real" where
  "js_mul_frac a m k = of_int (if is_double a then round53 (a * m) else a * m) / 2 ^ k"

definition times_1_2 :: "int \<Rightarrow> real" where
  "times_1_2 a = js_mul_frac a 5404319552844595 52"

definition times_2_5 :: "int \<Rightarrow> real" where
  "times_2_5 a = js_mul_frac a 5 1"

definition times_4 :: "int \<Rightarrow> real" where
  "times_4 a = js_mul_frac a 4 0"

text \<open>
  \<^verbatim>\<open>Math.round\<close> returns the integer nearest to its argument, a tie going towards plus
  infinity; the result is exact, since the nearest integer of a double is a double.
\<close>

definition Math_round :: "real \<Rightarrow> int" where
  "Math_round x = \<lfloor>x + 1 / 2\<rfloor>"

text \<open>\<^verbatim>\<open>a || b\<close> on numbers: \<open>b\<close> when \<open>a\<close> is falsy, that is zero.\<close>

definition or_else :: "int \<Rightarrow> int \<Rightarrow> int" where
  "or_else a b = (if a = 0 then b else a)"

section \<open>Review scheduler (services/srsService.ts)\<close>

text \<open>
  \<^verbatim>\<open>initializeCard(word, source, userId)\<close>.  The reading of the clock
  \<^verbatim>\<open>Date.now()\<close> and the random identifier are the parameters \<open>now\<close> and \<open>rnd\<close>.
\<close>

definition initializeCard :: "WordEntry \<Rightarrow> string \<Rightarrow> string \<Rightarrow> int \<Rightarrow> string \<Rightarrow> Flashcard" where
  "initializeCard w src uid now rnd =
     \<lparr> word = word w, pronunciation = pronunciation w,
       vietnameseMeaning = vietnameseMeaning w, context_ex = context_ex w,
       difficulty = difficulty w,
       id_card = rnd, userId = uid, source = src,
       createdAt = now, updatedAt = now, due = now,
       stability = 0, difficultyRating = 0, elapsedDays = 0,
       scheduledDays = 0, reps = 0, state = 0 \<rparr>"

text \<open>
  The interval in days, before rounding, and the lifecycle state chosen by the
  \<^verbatim>\<open>if / else if\<close> chain.  \<^verbatim>\<open>let days = 1\<close> and the copied state stay as they are
  when no branch is taken.
\<close>

definition review_days :: "Flashcard \<Rightarrow> int \<Rightarrow> real" where
  "review_days crd rating =
     (if rating = AGAIN then 0
      else if rating = HARD then max 1 (times_1_2 (scheduledDays crd))
      else if rating = GOOD then max 1 (times_2_5 (or_else (scheduledDays crd) 1))
      else if rating = EASY then max 1 (times_4 (or_else (scheduledDays crd) 1))
      else 1)"

definition review_state :: "Flashcard \<Rightarrow> int \<Rightarrow> int" where
  "review_state crd rating =
     (if rating = AGAIN then 3
      else if rating = HARD then 2
      else if rating = GOOD then 2
      else if rating = EASY then 2
      else state crd)"

text \<open>
  \<^verbatim>\<open>scheduleReview(card, rating)\<close>.  The function reads the clock twice: \<open>now_upd\<close> is
  the reading stored in \<^verbatim>\<open>updatedAt\<close>, \<open>now_due\<close> the later one from which
  \<^verbatim>\<open>due\<close> is computed, as
  \<^verbatim>\<open>Date.now() + newCard.scheduledDays * 24 * 60 * 60 * 1000\<close>, the products taken from
  left to right.  The body has no \<^verbatim>\<open>throw\<close>.
\<close>

definition scheduleReview :: "Flashcard \<Rightarrow> int \<Rightarrow> int \<Rightarrow> int \<Rightarrow> Flashcard" where
  "scheduleReview crd rating now_upd now_due =
     (let newCard = crd\<lparr> reps := js_add (reps crd) 1, updatedAt := now_upd \<rparr>;
          days = review_days crd rating;
          newCard = newCard\<lparr> state := review_state crd rating \<rparr>;
          newCard = newCard\<lparr> scheduledDays := Math_round days \<rparr>
      in newCard\<lparr> due :=
           js_add now_due
             (js_mul (js_mul (js_mul (js_mul (scheduledDays newCard) 24) 60) 60) 1000) \<rparr>)"

text \<open>
  A call of the scheduler as its caller sees it: a value or an error.  Since the body
  raises nothing, every call completes with a flashcard.
\<close>

datatype error = InvalidRating

definition review :: "Flashcard \<Rightarrow> int \<Rightarrow> int \<Rightarrow> error + Flashcard" where
  "review crd rating now = Inr (scheduleReview crd rating now now)"

text \<open>
  The cards the core can produce: a card comes from \<^verbatim>\<open>initializeCard\<close> and is then
  reviewed any number of times, each review at a clock reading that is not before the
  card's creation.
\<close>

inductive core_card :: "Flashcard \<Rightarrow> bool" where
  initialized: "core_card (initializeCard w src uid now rnd)"
| reviewed: "core_card c \<Longrightarrow> createdAt c \<le> now_due \<Longrightarrow>
     core_card (scheduleReview c rating now_upd now_due)"

section \<open>Accepting extracted words (App.tsx, handleProcess)\<close>

text \<open>
  \<^verbatim>\<open>result.words.map(w => initializeCard(w, result.title, user.id))\<close>: the call for
  the word at position \<open>i\<close> reads the clock (\<open>clock i\<close>) and draws an identifier
  (\<open>rnd i\<close>).
\<close>

definition newCards_of ::
  "WordEntry list \<Rightarrow> string \<Rightarrow> string \<Rightarrow> (nat \<Rightarrow> int) \<Rightarrow> (nat \<Rightarrow> string) \<Rightarrow> Flashcard list" where
  "newCards_of ws title uid clock rnd =
     map (\<lambda>i. initializeCard (ws ! i) title uid (clock i) (rnd i)) [0..<length ws]"

text \<open>
  One round of the \<^verbatim>\<open>forEach\<close>: \<^verbatim>\<open>merged.find\<close> looks for a card with the same
  lower-cased word; only when there is none is the new card pushed on \<^verbatim>\<open>merged\<close> and
  on \<^verbatim>\<open>added\<close>.  The state of the loop is the pair \<open>(merged, added)\<close>.

  \<^verbatim>\<open>String.prototype.toLowerCase\<close> belongs to the engine, not to the repository: it
  is the parameter \<open>toLowerCase\<close> of the loop, an arbitrary function on strings, so that
  what is proved of the loop holds for the case folding of every engine and for every
  representation of the strings.
\<close>

definition accept_step ::
  "(string \<Rightarrow> string) \<Rightarrow> Flashcard \<Rightarrow> Flashcard list \<times> Flashcard list
     \<Rightarrow> Flashcard list \<times> Flashcard list" where
  "accept_step toLowerCase newCard = (\<lambda>(merged, added).
     (case List.find (\<lambda>c. toLowerCase (word c) = toLowerCase (word newCard)) merged of
        None \<Rightarrow> (merged @ [newCard], added @ [newCard])
      | Some found \<Rightarrow> (merged, added)))"

definition handleProcess_merge ::
  "(string \<Rightarrow> string) \<Rightarrow> Flashcard list \<Rightarrow> Flashcard list \<Rightarrow> Flashcard list \<times> Flashcard list" where
  "handleProcess_merge toLowerCase existing newCards =
     fold (accept_step toLowerCase) newCards (existing, [])"

text \<open>The list \<^verbatim>\<open>added\<close> that is sent to the server: the accepted cards.\<close>

definition acceptCandidates ::
  "(string \<Rightarrow> string) \<Rightarrow> Flashcard list \<Rightarrow> WordEntry list \<Rightarrow> string \<Rightarrow> string
     \<Rightarrow> (nat \<Rightarrow> int) \<Rightarrow> (nat \<Rightarrow> string) \<Rightarrow> Flashcard list" where
  "acceptCandidates toLowerCase existing ws title uid clock rnd =
     snd (handleProcess_merge toLowerCase existing (newCards_of ws title uid clock rnd))"

section \<open>Server of record (App.tsx, the flashcards table and its routes)\<close>

text \<open>
  The table \<^verbatim>\<open>flashcards\<close> is the list of its rows in row order; \<^verbatim>\<open>id\<close> is its
  primary key.  \<^verbatim>\<open>INSERT OR REPLACE\<close> deletes the row that holds the same key, if
  there is one, and appends the new row.  Nothing in the statement looks at
  \<^verbatim>\<open>updatedAt\<close>, and nothing looks at the owner of the row it deletes.
\<close>

type_synonym flashcards = "Flashcard list"

definition insert_or_replace :: "Flashcard \<Rightarrow> flashcards \<Rightarrow> flashcards" where
  "insert_or_replace row db = filter (\<lambda>r. id_card r \<noteq> id_card row) db @ [row]"

text \<open>
  \<^verbatim>\<open>insert.run(card.id, req.user.id, card.word, ...)\<close>: every column is taken from
  the submitted card, except \<^verbatim>\<open>userId\<close>, which is the authenticated user's.
\<close>

definition insert_run :: "string \<Rightarrow> Flashcard \<Rightarrow> flashcards \<Rightarrow> flashcards" where
  "insert_run uid c db = insert_or_replace (c\<lparr> userId := uid \<rparr>) db"

text \<open>
  The loop of the transaction, for a requester \<open>uid\<close> who has a row in the table
  \<^verbatim>\<open>users\<close>: every row it writes then satisfies the foreign key of \<^verbatim>\<open>userId\<close>.
\<close>

definition sync_transaction :: "string \<Rightarrow> Flashcard list \<Rightarrow> flashcards \<Rightarrow> flashcards" where
  "sync_transaction uid cardsToSync db = fold (insert_run uid) cardsToSync db"

text \<open>
  \<^verbatim>\<open>POST /api/cards/sync\<close> for such a requester.  The body's \<^verbatim>\<open>cards\<close> is \<open>None\<close>
  when it is not an array; the answer is then status 400 and the table is untouched.
\<close>

datatype response = Status_ok | Status_400 | Status_500

definition cards_sync :: "string \<Rightarrow> Flashcard list option \<Rightarrow> flashcards \<Rightarrow> response \<times> flashcards" where
  "cards_sync uid body db =
     (case body of
        None \<Rightarrow> (Status_400, db)
      | Some cs \<Rightarrow> (Status_ok, sync_transaction uid cs db))"

text \<open>
  The route for any requester, with the identifiers \<open>users\<close> of the table
  \<^verbatim>\<open>users\<close>.  The table \<^verbatim>\<open>flashcards\<close> declares
  \<^verbatim>\<open>FOREIGN KEY(userId) REFERENCES users(id)\<close>: when the requester has no row in
  \<^verbatim>\<open>users\<close>, the first insert fails, the transaction is rolled back and the handler
  ends with an error (status 500); an empty batch inserts nothing and succeeds.
\<close>

definition cards_sync_route ::
  "string set \<Rightarrow> string \<Rightarrow> Flashcard list option \<Rightarrow> flashcards \<Rightarrow> response \<times> flashcards" where
  "cards_sync_route users uid body db =
     (case body of
        None \<Rightarrow> (Status_400, db)
      | Some cs \<Rightarrow>
          if cs \<noteq> [] \<and> uid \<notin> users then (Status_500, db)
          else (Status_ok, sync_transaction uid cs db))"

text \<open>\<^verbatim>\<open>GET /api/cards\<close>: the rows of the authenticated user.\<close>

definition get_cards :: "string \<Rightarrow> flashcards \<Rightarrow> Flashcard list" where
  "get_cards uid db = filter (\<lambda>r. userId r = uid) db"

text \<open>
  \<^verbatim>\<open>DELETE /api/cards/:id\<close>, with
  \<^verbatim>\<open>DELETE FROM flashcards WHERE id = ? AND userId = ?\<close>: only a row of the
  authenticated user is deleted.
\<close>

definition cards_delete :: "string \<Rightarrow> string \<Rightarrow> flashcards \<Rightarrow> flashcards" where
  "cards_delete uid cid db = filter (\<lambda>r. \<not> (id_card r = cid \<and> userId r = uid)) db"

section \<open>Auxiliary notions and sample data\<close>

text \<open>
  What a batch leaves behind in the table: of the rows it writes for one key, the last.
\<close>

fun last_writes :: "Flashcard list \<Rightarrow> Flashcard list" where
  "last_writes [] = []"
| "last_writes (c # cs) =
     (if id_card c \<in> id_card ` set cs then last_writes cs else c # last_writes cs)"

definition example_entry :: WordEntry where
  "example_entry =
     \<lparr> word = ''Ubiquitous'', pronunciation = ''ju-bik-wi-tes'',
       vietnameseMeaning = ''pho bien'', context_ex = ''Phones are ubiquitous.'',
       difficulty = CEFR_C1 \<rparr>"

definition example_card :: Flashcard where
  "example_card = initializeCard example_entry ''Article'' ''u1'' 1000 ''k3j9x0q2a''"

text \<open>
  Sample data: a card that two devices hold (\<open>card_X\<close>, last updated at 100), the same
  card after a review on one device (\<open>card_X_reviewed\<close>, updated at 150), a card of a
  second user, and a batch of extracted words with an existing card.
\<close>

definition card_X :: Flashcard where
  "card_X = initializeCard example_entry ''Article'' ''u1'' 100 ''x1''"

definition card_X_reviewed :: Flashcard where
  "card_X_reviewed = scheduleReview card_X GOOD 150 150"

definition bob_card :: Flashcard where
  "bob_card = initializeCard (example_entry\<lparr> word := ''Apple'' \<rparr>) ''Old'' ''u2'' 500 ''b1''"

definition apple_card :: Flashcard where
  "apple_card = initializeCard (example_entry\<lparr> word := ''Apple'' \<rparr>) ''Old'' ''u1'' 500 ''a1''"

definition example_words :: "WordEntry list" where
  "example_words =
     map (\<lambda>w. example_entry\<lparr> word := w \<rparr>) [''apple'', ''Banana'', ''BANANA'', ''cherry'']"

text \<open>
  One case folding, for the sample batch: the letters \<open>A\<close> to \<open>Z\<close> are lower-cased, as
  every engine does on them, and nothing else is changed.
\<close>

definition ascii_lower_char :: "char \<Rightarrow> char" where
  "ascii_lower_char ch =
     (let n = (of_char ch :: nat) in if 65 \<le> n \<and> n \<le> 90 then char_of (n + 32) else ch)"

definition ascii_lower :: "string \<Rightarrow> string" where
  "ascii_lower s = map ascii_lower_char s"

abbreviation ids :: "Flashcard list \<Rightarrow> string set" where
  "ids cs \<equiv> id_card ` set cs"

abbreviation stamp :: "string \<Rightarrow> Flashcard \<Rightarrow> Flashcard" where
  "stamp uid c \<equiv> c\<lparr> userId := uid \<rparr>"

section \<open>JavaScript numbers: rounding to a double\<close>

lemma ulp_int_pos [simp]: "0 < ulp_int n"
  by (simp add: ulp_int_def)

lemma ulp_int_small: "\<bar>n\<bar> < 2 ^ 53 \<Longrightarrow> ulp_int n = 1"
proof -
  assume "\<bar>n\<bar> < 2 ^ 53"
  then have "bitlen \<bar>n\<bar> \<le> 53"
    by (simp add: bitlen_le_iff_power)
  then show ?thesis by (simp add: ulp_int_def)
qed

lemma round53_small: "\<bar>n\<bar> < 2 ^ 53 \<Longrightarrow> round53 n = n"
  by (simp add: round53_def ulp_int_small)

lemma is_double_small: "\<bar>n\<bar> < 2 ^ 53 \<Longrightarrow> is_double n"
  by (simp add: is_double_def round53_small)

lemma round53_cases:
  "round53 n = ulp_int n * (n div ulp_int n) \<or> round53 n = ulp_int n * (n div ulp_int n + 1)"
  by (simp add: round53_def Let_def)

lemma round53_dvd: "ulp_int n dvd round53 n"
  using round53_cases [of n] by auto

lemma div_bracket:
  fixes q :: int assumes "0 < q"
  shows "q * (n div q) \<le> n" and "n < q * (n div q + 1)"
proof -
  define d r where "d = n div q" and "r = n mod q"
  have "n = q * d + r" by (simp add: d_def r_def)
  moreover have "0 \<le> r" "r < q" using assms by (simp_all add: r_def)
  ultimately show "q * (n div q) \<le> n" and "n < q * (n div q + 1)"
    unfolding d_def [symmetric] by (simp_all add: distrib_left)
qed



lemma ulp_int_le: "ulp_int n * 2 ^ 52 \<le> \<bar>n\<bar>" if "ulp_int n \<noteq> 1"
proof -
  from that have b: "53 < bitlen \<bar>n\<bar>"
    by (auto simp add: ulp_int_def intro: ccontr)
  then have pos: "0 < \<bar>n\<bar>" by (auto simp: bitlen_alt_def split: if_splits)
  have "ulp_int n * 2 ^ 52 = 2 ^ (nat (bitlen \<bar>n\<bar> - 53) + 52)"
    by (simp add: ulp_int_def power_add)
  also have "nat (bitlen \<bar>n\<bar> - 53) + 52 = nat (bitlen \<bar>n\<bar> - 1)"
    using b by simp
  also have "2 ^ nat (bitlen \<bar>n\<bar> - 1) \<le> \<bar>n\<bar>"
    using bitlen_bounds [OF pos] by simp
  finally show ?thesis .
qed


lemma ulp_int_dvd_mono: "\<bar>y\<bar> \<le> \<bar>a\<bar> \<Longrightarrow> ulp_int y dvd ulp_int a"
proof -
  assume "\<bar>y\<bar> \<le> \<bar>a\<bar>"
  then have "bitlen \<bar>y\<bar> \<le> bitlen \<bar>a\<bar>"
    by (simp add: bitlen_def floorlog_mono)
  then have "nat (bitlen \<bar>y\<bar> - 53) \<le> nat (bitlen \<bar>a\<bar> - 53)" by simp
  then show ?thesis
    unfolding ulp_int_def by (rule le_imp_power_dvd)
qed

lemma is_double_dvd: "is_double a \<Longrightarrow> \<bar>y\<bar> \<le> \<bar>a\<bar> \<Longrightarrow> ulp_int y dvd a"
  using round53_dvd [of a] ulp_int_dvd_mono [of y a]
  by (auto simp add: is_double_def dest: dvd_trans)


lemma bitlen_eqI:
  assumes "2 ^ nat (w - 1) \<le> x" and "x < 2 ^ nat w" and "0 < w"
  shows "bitlen x = w"
proof (rule antisym)
  show "bitlen x \<le> w" using assms by (simp add: bitlen_le_iff_power)
  have "nat (w - 1) = nat w - 1" using assms(3) by simp
  with assms(1) show "w \<le> bitlen x" by (simp add: bitlen_ge_iff_power)
qed

lemma ulp_int_floor_multiple:
  assumes "0 < y" and "ulp_int y \<noteq> 1"
  shows "ulp_int (ulp_int y * (y div ulp_int y)) = ulp_int y"
proof -
  define w q d where "w = bitlen \<bar>y\<bar>" and "q = ulp_int y" and "d = y div q"
  from assms(2) have w: "53 < w"
    by (auto simp add: ulp_int_def w_def intro: ccontr)
  have q: "0 < q" by (simp add: q_def)
  have qw: "q * 2 ^ 52 = 2 ^ nat (w - 1)"
  proof -
    have "q * 2 ^ 52 = 2 ^ (nat (w - 53) + 52)"
      by (simp add: q_def ulp_int_def w_def power_add)
    also have "nat (w - 53) + 52 = nat (w - 1)" using w by simp
    finally show ?thesis .
  qed
  have "q * 2 ^ 52 \<le> y"
    using ulp_int_le [OF assms(2)] assms(1) by (simp add: q_def)
  then have "(q * 2 ^ 52) div q \<le> y div q"
    using q by (rule zdiv_mono1)
  then have d: "2 ^ 52 \<le> d" using q by (simp add: d_def)
  then have lo: "2 ^ nat (w - 1) \<le> q * d"
    using q by (simp add: qw [symmetric])
  have "q * d \<le> y" using div_bracket(1) [OF q, of y] by (simp add: d_def)
  moreover have "y < 2 ^ nat w"
    using bitlen_bounds [of y] assms(1) by (simp add: w_def)
  ultimately have hi: "q * d < 2 ^ nat w" by simp
  have "0 \<le> q * d" using q d by simp
  then have "bitlen \<bar>q * d\<bar> = w"
    using bitlen_eqI [OF lo hi] w by simp
  then show ?thesis
    by (simp add: ulp_int_def [of "q * d"] q_def [symmetric] d_def [symmetric])
       (simp add: q_def ulp_int_def w_def)
qed

lemma round53_ge_double:
  assumes "is_double a" and "a \<le> y"
  shows "a \<le> round53 y"
proof (cases "ulp_int y = 1")
  case True
  then have "round53 y = y" by (simp add: round53_def)
  with assms(2) show ?thesis by simp
next
  case False
  define q d where "q = ulp_int y" and "d = y div q"
  have q: "0 < q" by (simp add: q_def)
  have lo: "q * d \<le> y" and hi: "y < q * (d + 1)"
    using div_bracket [OF q, of y] by (simp_all add: d_def)
  from round53_cases [of y]
  consider "round53 y = q * d" | "round53 y = q * (d + 1)"
    by (auto simp add: q_def d_def)
  then show ?thesis
  proof cases
    case 2
    with hi assms(2) show ?thesis by simp
  next
    case 1
    have "a \<le> q * d"
    proof (rule ccontr)
      assume "\<not> a \<le> q * d"
      then have above: "q * d < a" by simp
      have "y \<noteq> 0" using False by (auto simp add: ulp_int_def)
      have "q dvd a"
      proof (cases "y < 0")
        case True
        with assms(2) have "\<bar>y\<bar> \<le> \<bar>a\<bar>" by simp
        with assms(1) show ?thesis unfolding q_def by (rule is_double_dvd)
      next
        case False
        with \<open>y \<noteq> 0\<close> have ypos: "0 < y" by simp
        then have "0 \<le> d" using q by (simp add: d_def pos_imp_zdiv_nonneg_iff)
        then have "0 \<le> q * d" using q by simp
        with above have "\<bar>q * d\<bar> \<le> \<bar>a\<bar>" by simp
        with assms(1) have "ulp_int (q * d) dvd a" by (rule is_double_dvd)
        moreover have "ulp_int (q * d) = q"
          using ulp_int_floor_multiple [OF ypos \<open>ulp_int y \<noteq> 1\<close>] by (simp add: q_def d_def)
        ultimately show ?thesis by simp
      qed
      then obtain m where m: "a = q * m" ..
      from above m q have "d < m" by simp
      moreover from assms(2) hi m q have "m < d + 1"
        by (metis le_less_trans mult_less_cancel_left_pos)
      ultimately show False by simp
    qed
    with 1 show ?thesis by simp
  qed
qed

lemma round53_nonneg: "0 \<le> n \<Longrightarrow> 0 \<le> round53 n"
  by (rule round53_ge_double) (simp_all add: is_double_small)


text \<open>Every integer up to \<open>2^53\<close> in magnitude is a double.\<close>

lemma round53_exact: "\<bar>n\<bar> \<le> 2 ^ 53 \<Longrightarrow> round53 n = n"
proof (cases "\<bar>n\<bar> < 2 ^ 53")
  case True
  then show ?thesis by (rule round53_small)
next
  case False
  assume "\<bar>n\<bar> \<le> 2 ^ 53"
  with False have "\<bar>n\<bar> = 9007199254740992" by simp
  then have "n = 9007199254740992 \<or> n = - 9007199254740992" by linarith
  moreover have "round53 9007199254740992 = 9007199254740992" by code_simp
  moreover have "round53 (- 9007199254740992) = - 9007199254740992" by code_simp
  ultimately show ?thesis by auto
qed

lemma js_add_exact: "\<bar>a + b\<bar> \<le> 2 ^ 53 \<Longrightarrow> js_add a b = a + b"
  by (simp add: js_add_def round53_exact)

lemma js_mul_exact: "\<bar>a * b\<bar> \<le> 2 ^ 53 \<Longrightarrow> js_mul a b = a * b"
  by (simp add: js_mul_def round53_exact)


text \<open>Adding a number that is not negative never yields less.\<close>

lemma js_add_ge: "0 \<le> b \<Longrightarrow> a \<le> js_add a b"
  by (simp add: js_add_def round53_ge_double)

lemma js_mul_nonneg: "0 \<le> a \<Longrightarrow> 0 \<le> b \<Longrightarrow> 0 \<le> js_mul a b"
  by (simp add: js_mul_def round53_nonneg)

lemma js_add_zero [simp]: "js_add a 0 = a"
  by (simp add: js_add_def is_double_def)

lemma js_mul_zero [simp]: "js_mul 0 b = 0"
  by (simp add: js_mul_def round53_small)

section \<open>Scheduler: basic facts\<close>

lemma Math_round_of_int [simp]: "Math_round (of_int n) = n"
  by (simp add: Math_round_def)

lemma Math_round_numeral_tests:
  "Math_round 2.5 = 3" "Math_round 1 = 1" "Math_round 0 = 0" "Math_round 2.4 = 2"
  "Math_round (- 2.5) = - 2"
  by (simp_all add: Math_round_def)


lemma review_days_nonneg: "0 \<le> review_days c r"
  by (auto simp add: review_days_def le_max_iff_disj)

lemma Math_round_nonneg: "0 \<le> x \<Longrightarrow> 0 \<le> Math_round x"
  by (simp add: Math_round_def)

lemma scheduleReview_fields:
  "reps (scheduleReview c r tu td) = js_add (reps c) 1"
  "updatedAt (scheduleReview c r tu td) = tu"
  "state (scheduleReview c r tu td) = review_state c r"
  "scheduledDays (scheduleReview c r tu td) = Math_round (review_days c r)"
  "due (scheduleReview c r tu td)
     = js_add td (js_mul (js_mul (js_mul (js_mul (Math_round (review_days c r)) 24) 60) 60) 1000)"
  "createdAt (scheduleReview c r tu td) = createdAt c"
  by (simp_all add: scheduleReview_def Let_def)

lemma scheduleReview_due_ge: "td \<le> due (scheduleReview c r tu td)"
proof -
  have "0 \<le> Math_round (review_days c r)"
    by (rule Math_round_nonneg) (rule review_days_nonneg)
  then have "0 \<le> js_mul (js_mul (js_mul (js_mul (Math_round (review_days c r)) 24) 60) 60) 1000"
    by (intro js_mul_nonneg) simp_all
  then show ?thesis
    by (simp only: scheduleReview_fields js_add_ge)
qed

text \<open>
  The milliseconds of a whole number of days, and the due time, are exact as long as
  they stay within \<open>2^53\<close>.
\<close>

lemma days_in_ms_exact:
  assumes "0 \<le> n" and "n * 86400000 \<le> 2 ^ 53"
  shows "js_mul (js_mul (js_mul (js_mul n 24) 60) 60) 1000 = n * 86400000"
proof -
  have a: "\<bar>n * 24\<bar> \<le> 2 ^ 53" using assms by simp
  have b: "\<bar>n * 24 * 60\<bar> \<le> 2 ^ 53" using assms by simp
  have c: "\<bar>n * 24 * 60 * 60\<bar> \<le> 2 ^ 53" using assms by simp
  have d: "\<bar>n * 24 * 60 * 60 * 1000\<bar> \<le> 2 ^ 53" using assms by simp
  have "js_mul (js_mul (js_mul (js_mul n 24) 60) 60) 1000 = n * 24 * 60 * 60 * 1000"
    by (simp only: js_mul_exact [OF a] js_mul_exact [OF b] js_mul_exact [OF c]
        js_mul_exact [OF d])
  then show ?thesis by simp
qed

lemma scheduleReview_due_exact:
  assumes "\<bar>td\<bar> + scheduledDays (scheduleReview c r tu td) * 86400000 \<le> 2 ^ 53"
  shows "due (scheduleReview c r tu td)
       = td + scheduledDays (scheduleReview c r tu td) * 86400000"
proof -
  define n where "n = Math_round (review_days c r)"
  have n: "0 \<le> n"
    unfolding n_def by (rule Math_round_nonneg) (rule review_days_nonneg)
  from assms have s: "\<bar>td\<bar> + n * 86400000 \<le> 2 ^ 53"
    by (simp add: scheduleReview_fields n_def)
  with n have "n * 86400000 \<le> 2 ^ 53" by simp
  with n have m: "js_mul (js_mul (js_mul (js_mul n 24) 60) 60) 1000 = n * 86400000"
    by (rule days_in_ms_exact)
  from s n have "\<bar>td + n * 86400000\<bar> \<le> 2 ^ 53" by simp
  then have "js_add td (n * 86400000) = td + n * 86400000"
    by (rule js_add_exact)
  with m show ?thesis
    by (simp add: scheduleReview_fields n_def [symmetric])
qed

subsection \<open>The rounded intervals in exact arithmetic\<close>

lemma Math_round_frac:
  "Math_round (of_int a / of_int b) = (2 * a + b) div (2 * b)" if "b \<noteq> 0"
proof -
  have "(of_int a / of_int b + 1 / 2 :: real) = of_int (2 * a + b) / of_int (2 * b)"
    using that by (simp add: field_simps)
  then show ?thesis
    unfolding Math_round_def by (simp only: floor_divide_of_int_eq)
qed


lemma good_interval:
  "Math_round (max 1 (of_int S * 2.5)) = (if S \<le> 0 then 1 else (5 * S + 1) div 2)"
proof (cases "S \<le> 0")
  case True
  then have "(of_int S * 2.5 :: real) \<le> 0"
    by (simp add: mult_le_0_iff)
  then have "max 1 (of_int S * 2.5 :: real) = 1" by simp
  with True show ?thesis using Math_round_of_int [of 1] by simp
next
  case False
  then have "1 \<le> S" by simp
  then have "(1::real) \<le> of_int S * 2.5" by simp
  then have "max 1 (of_int S * 2.5 :: real) = of_int (5 * S) / of_int 2" by simp
  then have "Math_round (max 1 (of_int S * 2.5)) = (2 * (5 * S) + 2) div (2 * 2)"
    by (simp only: Math_round_frac)
  also have "\<dots> = (5 * S + 1) div 2" by presburger
  finally show ?thesis using False by simp
qed

lemma easy_interval:
  "Math_round (max 1 (of_int S * 4)) = (if S \<le> 0 then 1 else 4 * S)"
proof (cases "S \<le> 0")
  case True
  then have "(of_int S * 4 :: real) \<le> 0" by simp
  then have "max 1 (of_int S * 4 :: real) = 1" by simp
  with True show ?thesis using Math_round_of_int [of 1] by simp
next
  case False
  then have "(1::real) \<le> of_int S * 4" by simp
  then have "max 1 (of_int S * 4 :: real) = of_int (4 * S)" by simp
  with False show ?thesis by (simp only: Math_round_of_int) simp
qed

subsection \<open>The rounded intervals in double arithmetic\<close>







section \<open>Scheduler: the claims\<close>


lemma is_double_numeral_tests:
  "is_double 0" "is_double 1" "is_double 2" "is_double 2251799813685249"
  "is_double 9007199254740992"
  by (simp_all add: is_double_def round53_exact)

lemma round53_numeral_tests:
  "round53 9007199254740993 = 9007199254740992"
  "round53 11258999068426245 = 11258999068426244"
  by code_simp+




text \<open>
  Claim C5, as the specification states it, fails at the limit of double precision: a card
  with \<open>2^53\<close> repetitions keeps \<open>2^53\<close> repetitions, since \<open>2^53 + 1\<close> is no double
  and the sum is rounded back.
\<close>

theorem scheduleReview_reps_beyond_double_precision:
  "GOOD \<in> {AGAIN, HARD, GOOD, EASY}
   \<and> reps (scheduleReview (example_card\<lparr>reps := 9007199254740992\<rparr>) GOOD 2000 2000)
       = 9007199254740992"
  by (simp add: scheduleReview_fields js_add_def is_double_numeral_tests
      round53_numeral_tests)

text \<open>
  Claim C5, amended.  Whatever the rating (Again included), the reviewed card has one
  repetition more than the card that was reviewed, provided the count lies between
  \<open>- 2^53\<close> and \<open>2^53 - 1\<close>; and for every card the count never goes down.
\<close>

theorem scheduleReview_reps_increment:
  "(- (2 ^ 53) \<le> reps c \<and> reps c < 2 ^ 53 \<longrightarrow> reps (scheduleReview c r tu td) = reps c + 1)
   \<and> reps c \<le> reps (scheduleReview c r tu td)"
proof -
  have "reps (scheduleReview c r tu td) = reps c + 1"
    if "- (2 ^ 53) \<le> reps c \<and> reps c < 2 ^ 53"
  proof -
    from that have "\<bar>reps c + 1\<bar> \<le> 2 ^ 53" by linarith
    then show ?thesis by (simp add: scheduleReview_fields js_add_exact)
  qed
  moreover have "reps c \<le> reps (scheduleReview c r tu td)"
    by (simp add: scheduleReview_fields js_add_ge)
  ultimately show ?thesis by blast
qed

theorem scheduleReview_reps_increment_witness:
  "- (2 ^ 53) \<le> reps example_card \<and> reps example_card < 2 ^ 53
   \<and> reps (scheduleReview example_card AGAIN 2000 2001) = 1
   \<and> reps example_card \<le> reps (scheduleReview example_card AGAIN 2000 2001)"
proof -
  have h: "- (2 ^ 53) \<le> reps example_card \<and> reps example_card < 2 ^ 53"
    by (simp add: example_card_def initializeCard_def)
  with scheduleReview_reps_increment [of example_card AGAIN 2000 2001]
  have "reps (scheduleReview example_card AGAIN 2000 2001) = reps example_card + 1"
    and "reps example_card \<le> reps (scheduleReview example_card AGAIN 2000 2001)"
    by blast+
  with h show ?thesis by (simp add: example_card_def initializeCard_def)
qed

text \<open>
  Claim C8.  A review changes no field but \<open>state\<close>, \<open>scheduledDays\<close>, \<open>due\<close>,
  \<open>reps\<close> and \<open>updatedAt\<close>: identity, content, \<open>createdAt\<close> and the reserved fields
  \<open>stability\<close>, \<open>difficultyRating\<close> and \<open>elapsedDays\<close> are those of the input card.
\<close>

theorem scheduleReview_frame:
  "id_card (scheduleReview c r tu td) = id_card c
   \<and> userId (scheduleReview c r tu td) = userId c
   \<and> word (scheduleReview c r tu td) = word c
   \<and> pronunciation (scheduleReview c r tu td) = pronunciation c
   \<and> vietnameseMeaning (scheduleReview c r tu td) = vietnameseMeaning c
   \<and> context_ex (scheduleReview c r tu td) = context_ex c
   \<and> difficulty (scheduleReview c r tu td) = difficulty c
   \<and> source (scheduleReview c r tu td) = source c
   \<and> createdAt (scheduleReview c r tu td) = createdAt c
   \<and> stability (scheduleReview c r tu td) = stability c
   \<and> difficultyRating (scheduleReview c r tu td) = difficultyRating c
   \<and> elapsedDays (scheduleReview c r tu td) = elapsedDays c
   \<and> scheduleReview c r tu td
       = c\<lparr> state := state (scheduleReview c r tu td),
             scheduledDays := scheduledDays (scheduleReview c r tu td),
             due := due (scheduleReview c r tu td),
             reps := reps (scheduleReview c r tu td),
             updatedAt := updatedAt (scheduleReview c r tu td) \<rparr>"
  by (simp add: scheduleReview_def Let_def)

text \<open>
  Claim C9, as it is stated, fails at the limit of double precision: with a rating that is
  none of the four grades, a card with \<open>2^53\<close> repetitions is returned with \<open>2^53\<close>
  repetitions, not one more.
\<close>

theorem scheduleReview_unknown_rating_beyond_double_precision:
  "(5 :: int) \<notin> {AGAIN, HARD, GOOD, EASY}
   \<and> reps (scheduleReview (example_card\<lparr>reps := 9007199254740992\<rparr>) 5 2000 2000)
       \<noteq> 9007199254740992 + 1"
  by (simp add: AGAIN_def HARD_def GOOD_def EASY_def scheduleReview_fields js_add_def
      is_double_numeral_tests round53_numeral_tests)

text \<open>
  Claim C9, amended.  A rating that is none of the four grades makes the review return
  normally: the state of the card is that of the input card and its \<open>scheduledDays\<close>
  is 1; it has one repetition more, provided the count lies between \<open>- 2^53\<close> and
  \<open>2^53 - 1\<close>; and it is due one day after the clock reading, provided the magnitude of
  the reading and the 86400000 milliseconds of the day together do not exceed \<open>2^53\<close>.
\<close>

theorem scheduleReview_unknown_rating:
  assumes "r \<noteq> AGAIN" and "r \<noteq> HARD" and "r \<noteq> GOOD" and "r \<noteq> EASY"
  shows "review c r now = Inr (scheduleReview c r now now)
    \<and> state (scheduleReview c r tu td) = state c
    \<and> scheduledDays (scheduleReview c r tu td) = 1
    \<and> (- (2 ^ 53) \<le> reps c \<and> reps c < 2 ^ 53 \<longrightarrow>
         reps (scheduleReview c r tu td) = reps c + 1)
    \<and> (\<bar>td\<bar> + 86400000 \<le> 2 ^ 53 \<longrightarrow>
         due (scheduleReview c r tu td) = td + 24 * 60 * 60 * 1000)"
proof -
  have d: "review_days c r = 1" and s: "review_state c r = state c"
    using assms by (simp_all add: review_days_def review_state_def)
  then have sd: "scheduledDays (scheduleReview c r tu td) = 1"
    by (simp add: scheduleReview_fields Math_round_numeral_tests)
  have "reps (scheduleReview c r tu td) = reps c + 1"
    if "- (2 ^ 53) \<le> reps c \<and> reps c < 2 ^ 53"
  proof -
    from that have "\<bar>reps c + 1\<bar> \<le> 2 ^ 53" by linarith
    then show ?thesis by (simp add: scheduleReview_fields js_add_exact)
  qed
  moreover have "due (scheduleReview c r tu td) = td + 24 * 60 * 60 * 1000"
    if "\<bar>td\<bar> + 86400000 \<le> 2 ^ 53"
    using that scheduleReview_due_exact [of td c r tu] by (simp add: sd)
  ultimately show ?thesis
    using s sd by (simp add: review_def scheduleReview_fields)
qed

theorem scheduleReview_unknown_rating_witness:
  "review example_card 5 2000 = Inr (scheduleReview example_card 5 2000 2000)
    \<and> state (scheduleReview example_card 5 2000 2000) = 0
    \<and> scheduledDays (scheduleReview example_card 5 2000 2000) = 1
    \<and> reps (scheduleReview example_card 5 2000 2000) = 1
    \<and> due (scheduleReview example_card 5 2000 2000) = 86402000"
  using scheduleReview_unknown_rating [of 5 example_card 2000 2000 2000]
  by (simp add: AGAIN_def HARD_def GOOD_def EASY_def example_card_def initializeCard_def)

text \<open>
  Claim C3, as the specification states it, fails: the rating 7 is none of the four
  grades, and the review of the sample card with it returns a card, not an error.
\<close>

theorem review_out_of_range_rating_returns:
  "(7::int) \<notin> {AGAIN, HARD, GOOD, EASY} \<and> \<not> isl (review example_card 7 2000)"
  by (simp add: AGAIN_def HARD_def GOOD_def EASY_def review_def)

text \<open>
  Claim C3, amended.  A review has no failure mode: for every rating the call returns a
  card and never an error.  For one of the four grades the card has the state of the
  transition table (3 on Again, 2 otherwise); for any other rating the rating is not
  rejected but scheduled by default: the card keeps the state of the input card and its
  \<open>scheduledDays\<close> is 1.
\<close>

theorem review_never_fails:
  "\<not> isl (review c r now)
   \<and> (r \<in> {AGAIN, HARD, GOOD, EASY} \<longrightarrow>
        (\<exists>c'. review c r now = Inr c' \<and> state c' = (if r = AGAIN then 3 else 2)))
   \<and> (r \<notin> {AGAIN, HARD, GOOD, EASY} \<longrightarrow>
        (\<exists>c'. review c r now = Inr c' \<and> state c' = state c \<and> scheduledDays c' = 1))"
  by (auto simp add: review_def scheduleReview_fields review_state_def review_days_def
      Math_round_numeral_tests)

theorem review_never_fails_witness:
  "(7 :: int) \<notin> {AGAIN, HARD, GOOD, EASY}
   \<and> (\<exists>c'. review example_card 7 2000 = Inr c' \<and> state c' = 0 \<and> scheduledDays c' = 1)
   \<and> GOOD \<in> {AGAIN, HARD, GOOD, EASY}
   \<and> (\<exists>c'. review example_card GOOD 2000 = Inr c' \<and> state c' = 2)"
proof -
  have a: "(7 :: int) \<notin> {AGAIN, HARD, GOOD, EASY}"
    by (simp add: AGAIN_def HARD_def GOOD_def EASY_def)
  have b: "GOOD \<in> {AGAIN, HARD, GOOD, EASY}" by simp
  have s: "state example_card = 0"
    by (simp add: example_card_def initializeCard_def)
  from a review_never_fails [of example_card 7 2000]
  have "\<exists>c'. review example_card 7 2000 = Inr c' \<and> state c' = state example_card
      \<and> scheduledDays c' = 1"
    by blast
  moreover from b review_never_fails [of example_card GOOD 2000]
  have "\<exists>c'. review example_card GOOD 2000 = Inr c' \<and> state c' = 2"
    by (simp add: GOOD_def AGAIN_def)
  ultimately show ?thesis using a b s by simp
qed

text \<open>
  Claim C6.  Initialization sets \<open>due\<close> and \<open>createdAt\<close> to the same clock reading; a
  review at a clock reading that is not before \<open>createdAt\<close> yields a card that is due
  at or after its creation; hence every card the core produces is due at or after its
  creation.
\<close>

theorem due_not_before_createdAt:
  "createdAt (initializeCard w src uid now rnd) = now
   \<and> due (initializeCard w src uid now rnd) = now
   \<and> (createdAt c \<le> td \<longrightarrow>
        createdAt (scheduleReview c r tu td) \<le> due (scheduleReview c r tu td))
   \<and> (core_card c \<longrightarrow> createdAt c \<le> due c)"
proof -
  have step: "createdAt (scheduleReview c r tu td) \<le> due (scheduleReview c r tu td)"
    if "createdAt c \<le> td" for c r tu td
    using that scheduleReview_due_ge [of td c r tu]
    by (simp only: scheduleReview_fields(6))
  have inv: "createdAt c \<le> due c" if "core_card c"
    using that
  proof (induction rule: core_card.induct)
    case (initialized w src uid now rnd)
    show ?case by (simp add: initializeCard_def)
  next
    case (reviewed c now_due rating now_upd)
    from reviewed.hyps(2) show ?case by (rule step)
  qed
  show ?thesis using step inv by (simp add: initializeCard_def)
qed

theorem due_not_before_createdAt_witness:
  "createdAt example_card \<le> 2001
   \<and> createdAt (scheduleReview example_card GOOD 2000 2001)
       \<le> due (scheduleReview example_card GOOD 2000 2001)
   \<and> core_card (scheduleReview (scheduleReview example_card GOOD 2000 2001) HARD 3000 3001)
   \<and> createdAt (scheduleReview (scheduleReview example_card GOOD 2000 2001) HARD 3000 3001)
       \<le> due (scheduleReview (scheduleReview example_card GOOD 2000 2001) HARD 3000 3001)"
proof -
  let ?c1 = "scheduleReview example_card GOOD 2000 2001"
  let ?c2 = "scheduleReview ?c1 HARD 3000 3001"
  have a: "createdAt example_card \<le> 2001"
    by (simp add: example_card_def initializeCard_def)
  have a': "createdAt ?c1 \<le> 3001"
    by (simp add: scheduleReview_fields example_card_def initializeCard_def)
  have "core_card example_card"
    unfolding example_card_def by (rule core_card.initialized)
  then have "core_card ?c1"
    using a by (rule core_card.reviewed)
  then have b: "core_card ?c2"
    using a' by (rule core_card.reviewed)
  from a due_not_before_createdAt [of example_entry "''Article''" "''u1''" 1000
      "''k3j9x0q2a''" example_card 2001 GOOD 2000]
  have s: "createdAt ?c1 \<le> due ?c1" by blast
  from b due_not_before_createdAt [of example_entry "''Article''" "''u1''" 1000
      "''k3j9x0q2a''" ?c2 0 GOOD 0]
  have i: "createdAt ?c2 \<le> due ?c2" by blast
  from a s b i show ?thesis by blast
qed

section \<open>Accepting extracted words: no duplicates\<close>

lemma accept_step_None:
  assumes "\<forall>x \<in> set merged. lc (word x) \<noteq> lc (word n)"
  shows "accept_step lc n (merged, added) = (merged @ [n], added @ [n])"
proof -
  from assms have "List.find (\<lambda>c. lc (word c) = lc (word n)) merged = None"
    by (simp add: find_None_iff)
  then show ?thesis by (simp add: accept_step_def)
qed

lemma accept_step_Some:
  assumes "\<exists>x \<in> set merged. lc (word x) = lc (word n)"
  shows "accept_step lc n (merged, added) = (merged, added)"
proof -
  from assms have "List.find (\<lambda>c. lc (word c) = lc (word n)) merged \<noteq> None"
    by (simp add: find_None_iff) blast
  then show ?thesis by (auto simp add: accept_step_def)
qed

text \<open>
  The loop invariant, for any case folding \<open>lc\<close>: \<open>merged\<close> is the existing cards
  followed by the accepted ones, the accepted ones have pairwise different folded words,
  and none of these is the folded word of an existing card.
\<close>

lemma fold_accept_step:
  assumes "distinct (map (\<lambda>c. lc (word c)) ad)"
    and "(\<lambda>c. lc (word c)) ` set ad \<inter> (\<lambda>c. lc (word c)) ` set ex = {}"
  shows "\<exists>ad'. fold (accept_step lc) ns (ex @ ad, ad) = (ex @ ad', ad')
           \<and> distinct (map (\<lambda>c. lc (word c)) ad')
           \<and> (\<lambda>c. lc (word c)) ` set ad' \<inter> (\<lambda>c. lc (word c)) ` set ex = {}"
  using assms
proof (induction ns arbitrary: ad)
  case Nil
  then show ?case by simp
next
  case (Cons n ns)
  show ?case
  proof (cases "\<exists>x \<in> set (ex @ ad). lc (word x) = lc (word n)")
    case True
    then have "accept_step lc n (ex @ ad, ad) = (ex @ ad, ad)"
      by (rule accept_step_Some)
    with Cons.IH [OF Cons.prems] show ?thesis by simp
  next
    case False
    then have fresh: "\<forall>x \<in> set (ex @ ad). lc (word x) \<noteq> lc (word n)" by blast
    then have st: "accept_step lc n (ex @ ad, ad) = (ex @ (ad @ [n]), ad @ [n])"
      by (simp add: accept_step_None)
    from fresh Cons.prems have d: "distinct (map (\<lambda>c. lc (word c)) (ad @ [n]))"
      by auto
    from fresh Cons.prems
    have i: "(\<lambda>c. lc (word c)) ` set (ad @ [n]) \<inter> (\<lambda>c. lc (word c)) ` set ex = {}"
      by auto
    from Cons.IH [OF d i] st show ?thesis by simp
  qed
qed

lemma handleProcess_merge_dedup:
  "distinct (map (\<lambda>c. lc (word c)) (snd (handleProcess_merge lc ex ns)))
   \<and> (\<lambda>c. lc (word c)) ` set (snd (handleProcess_merge lc ex ns))
       \<inter> (\<lambda>c. lc (word c)) ` set ex = {}
   \<and> fst (handleProcess_merge lc ex ns) = ex @ snd (handleProcess_merge lc ex ns)"
proof -
  from fold_accept_step [of lc "[]" ex ns]
  obtain ad' where "fold (accept_step lc) ns (ex, []) = (ex @ ad', ad')"
    and "distinct (map (\<lambda>c. lc (word c)) ad')"
    and "(\<lambda>c. lc (word c)) ` set ad' \<inter> (\<lambda>c. lc (word c)) ` set ex = {}"
    by auto
  then show ?thesis by (simp add: handleProcess_merge_def)
qed

text \<open>
  Claim C4.  For every list \<open>E\<close> of existing cards and every list of candidate words,
  no two accepted cards have words that are equal under the case-insensitive comparison
  of the code, \<open>a.toLowerCase() === b.toLowerCase()\<close>, and no accepted card has a word
  equal in this sense to the word of a card of \<open>E\<close>; this for whatever function
  \<open>toLowerCase\<close> is.  The same holds of the loop on any list \<open>newCards\<close> of new cards.
\<close>

theorem acceptCandidates_no_duplicates:
  "distinct (map (\<lambda>c. toLowerCase (word c))
      (acceptCandidates toLowerCase E ws title uid clock rnd))
   \<and> (\<forall>a \<in> set (acceptCandidates toLowerCase E ws title uid clock rnd). \<forall>e \<in> set E.
         toLowerCase (word a) \<noteq> toLowerCase (word e))
   \<and> distinct (map (\<lambda>c. toLowerCase (word c))
        (snd (handleProcess_merge toLowerCase E newCards)))
   \<and> (\<forall>a \<in> set (snd (handleProcess_merge toLowerCase E newCards)). \<forall>e \<in> set E.
         toLowerCase (word a) \<noteq> toLowerCase (word e))"
proof -
  have "distinct (map (\<lambda>c. toLowerCase (word c)) (snd (handleProcess_merge toLowerCase E ns)))
     \<and> (\<forall>a \<in> set (snd (handleProcess_merge toLowerCase E ns)). \<forall>e \<in> set E.
           toLowerCase (word a) \<noteq> toLowerCase (word e))" for ns
    using handleProcess_merge_dedup [of toLowerCase E ns] by blast
  from this [of newCards] this [of "newCards_of ws title uid clock rnd"]
  show ?thesis by (simp add: acceptCandidates_def)
qed

theorem acceptCandidates_no_duplicates_witness:
  "map word (acceptCandidates ascii_lower [apple_card] example_words ''T'' ''u1''
       (\<lambda>i. 1000 + int i) (\<lambda>i. replicate (Suc i) CHR ''x'')) = [''Banana'', ''cherry'']
   \<and> distinct (map (\<lambda>c. ascii_lower (word c))
       (acceptCandidates ascii_lower [apple_card] example_words ''T'' ''u1''
         (\<lambda>i. 1000 + int i) (\<lambda>i. replicate (Suc i) CHR ''x'')))
   \<and> ascii_lower (word apple_card) \<notin> (\<lambda>c. ascii_lower (word c)) `
       set (acceptCandidates ascii_lower [apple_card] example_words ''T'' ''u1''
         (\<lambda>i. 1000 + int i) (\<lambda>i. replicate (Suc i) CHR ''x''))"
proof -
  let ?acc = "acceptCandidates ascii_lower [apple_card] example_words ''T'' ''u1''
       (\<lambda>i. 1000 + int i) (\<lambda>i. replicate (Suc i) CHR ''x'')"
  have w: "map word ?acc = [''Banana'', ''cherry'']"
    by code_simp
  from acceptCandidates_no_duplicates [of ascii_lower "[apple_card]" example_words "''T''"
      "''u1''" "\<lambda>i. 1000 + int i" "\<lambda>i. replicate (Suc i) CHR ''x''" "[]"]
  have d: "distinct (map (\<lambda>c. ascii_lower (word c)) ?acc)"
    and n: "\<forall>x \<in> set ?acc. ascii_lower (word x) \<noteq> ascii_lower (word apple_card)"
    by simp_all
  from n have "ascii_lower (word apple_card) \<notin> (\<lambda>c. ascii_lower (word c)) ` set ?acc"
    by auto
  with w d show ?thesis by simp
qed

section \<open>Server of record: the bulk upsert\<close>

lemma ids_last_writes [simp]: "ids (last_writes cs) = ids cs"
  by (induction cs) auto

lemma set_last_writes: "set (last_writes cs) \<subseteq> set cs"
  by (induction cs) auto

lemma distinct_last_writes [simp]: "distinct (map id_card (last_writes cs))"
proof (induction cs)
  case Nil
  show ?case by simp
next
  case (Cons c cs)
  have "id_card c \<notin> ids (last_writes cs)" if "id_card c \<notin> ids cs"
    using that by simp
  with Cons show ?case by simp
qed

lemma last_writes_distinct: "distinct (map id_card cs) \<Longrightarrow> last_writes cs = cs"
  by (induction cs) auto

lemma ids_stamp [simp]: "ids (map (stamp uid) cs) = ids cs"
  by (simp add: image_image)

lemma sync_transaction_Cons:
  "sync_transaction uid (c # cs) db = sync_transaction uid cs (insert_run uid c db)"
  by (simp add: sync_transaction_def)

text \<open>
  The table after a transaction: the rows whose key the batch does not mention, in their
  old order, followed by the last row the batch writes for each of its keys.
\<close>

lemma sync_transaction_char:
  "sync_transaction uid cs db
     = filter (\<lambda>r. id_card r \<notin> ids cs) db @ last_writes (map (stamp uid) cs)"
proof (induction cs arbitrary: db)
  case Nil
  show ?case by (simp add: sync_transaction_def)
next
  case (Cons c cs)
  have "sync_transaction uid (c # cs) db
      = filter (\<lambda>r. id_card r \<notin> ids cs) (insert_run uid c db) @ last_writes (map (stamp uid) cs)"
    by (simp only: sync_transaction_Cons Cons.IH)
  also have "filter (\<lambda>r. id_card r \<notin> ids cs) (insert_run uid c db)
      = filter (\<lambda>r. id_card r \<notin> ids (c # cs)) db
        @ (if id_card c \<in> ids cs then [] else [stamp uid c])"
    by (simp add: insert_run_def insert_or_replace_def conj_commute)
  finally show ?case by (simp add: image_image)
qed

lemma sync_replay: "sync_transaction uid cs (sync_transaction uid cs db) = sync_transaction uid cs db"
proof -
  let ?W = "last_writes (map (stamp uid) cs)"
  have "filter (\<lambda>r. id_card r \<notin> ids cs) ?W = []"
  proof -
    have "\<forall>r \<in> set ?W. id_card r \<in> ids cs"
      using ids_last_writes [of "map (stamp uid) cs"] by (metis ids_stamp imageI)
    then show ?thesis by (simp add: filter_empty_conv)
  qed
  then show ?thesis by (simp add: sync_transaction_char)
qed

lemma insert_run_userId: "insert_run uid (c\<lparr> userId := x \<rparr>) = insert_run uid c"
  by (rule ext) (simp add: insert_run_def insert_or_replace_def)

lemma sync_ignores_userId: "sync_transaction uid (map (\<lambda>c. c\<lparr> userId := f c \<rparr>) cs) db = sync_transaction uid cs db"
  by (simp add: sync_transaction_def fold_map comp_def insert_run_userId)

lemma userId_last_writes: "r \<in> set (last_writes (map (stamp uid) cs)) \<Longrightarrow> userId r = uid"
  using set_last_writes [of "map (stamp uid) cs"] by auto

lemma sync_written_userId: "r \<in> set (sync_transaction uid cs db) \<Longrightarrow> id_card r \<in> ids cs \<Longrightarrow> userId r = uid"
  by (auto simp add: sync_transaction_char dest: userId_last_writes)

lemma sync_other_rows: "r \<in> set (sync_transaction uid cs db) \<Longrightarrow> userId r \<noteq> uid \<Longrightarrow> r \<in> set db \<and> id_card r \<notin> ids cs"
  by (auto simp add: sync_transaction_char dest: userId_last_writes)

lemma distinct_sync:
  "distinct (map id_card db) \<Longrightarrow> distinct (map id_card (sync_transaction uid cs db))"
  by (auto simp add: sync_transaction_char distinct_map_filter)

text \<open>
  Reading the user's cards back after a sync and syncing them again onto the table the
  first sync started from shows the user the same cards, in the same order.
\<close>

lemma get_cards_merge:
  assumes "distinct (map id_card A)"
  shows "get_cards uid (sync_transaction uid (get_cards uid (sync_transaction uid B A)) A)
       = get_cards uid (sync_transaction uid B A)"
proof -
  let ?M = "sync_transaction uid B A"
  let ?L = "get_cards uid ?M"
  have dM: "distinct (map id_card ?M)"
    using assms by (rule distinct_sync)
  then have dL: "distinct (map id_card ?L)"
    by (simp add: get_cards_def distinct_map_filter)
  have uL: "\<forall>r \<in> set ?L. userId r = uid"
    by (simp add: get_cards_def)
  then have sL: "map (stamp uid) ?L = ?L"
    by (simp add: map_idI)
  have covered: "id_card r \<in> ids ?L" if "r \<in> set A" and "userId r = uid" for r
  proof (cases "id_card r \<in> ids B")
    case True
    then have "id_card r \<in> ids (last_writes (map (stamp uid) B))"
      by (simp only: ids_last_writes ids_stamp)
    then obtain w where "w \<in> set (last_writes (map (stamp uid) B))" and "id_card w = id_card r"
      by (metis imageE)
    moreover from this have "userId w = uid" by (simp add: userId_last_writes)
    ultimately have "w \<in> set ?L"
      by (simp add: get_cards_def sync_transaction_char)
    with \<open>id_card w = id_card r\<close> show ?thesis by (metis imageI)
  next
    case False
    with that have "r \<in> set ?L"
      by (simp add: get_cards_def sync_transaction_char)
    then show ?thesis by simp
  qed
  have "sync_transaction uid ?L A = filter (\<lambda>r. id_card r \<notin> ids ?L) A @ ?L"
    by (simp only: sync_transaction_char [of uid ?L] sL last_writes_distinct [OF dL])
  then have "get_cards uid (sync_transaction uid ?L A)
      = filter (\<lambda>r. userId r = uid) (filter (\<lambda>r. id_card r \<notin> ids ?L) A)
        @ filter (\<lambda>r. userId r = uid) ?L"
    by (simp only: get_cards_def [of uid "_ @ _"] filter_append)
  also have "filter (\<lambda>r. userId r = uid) (filter (\<lambda>r. id_card r \<notin> ids ?L) A) = []"
    using covered by (auto simp add: filter_empty_conv)
  also have "filter (\<lambda>r. userId r = uid) ?L = ?L"
    using uL by (simp only: filter_id_conv)
  finally show ?thesis by simp
qed

lemma sample_facts:
  "id_card card_X = ''x1''" "id_card card_X_reviewed = ''x1''" "id_card bob_card = ''b1''"
  "userId card_X = ''u1''" "userId card_X_reviewed = ''u1''" "userId bob_card = ''u2''"
  "updatedAt card_X = 100" "updatedAt card_X_reviewed = 150"
  by (simp_all add: card_X_def card_X_reviewed_def bob_card_def initializeCard_def
      scheduleReview_def Let_def)

lemma stamp_same: "userId c = uid \<Longrightarrow> c\<lparr> userId := uid \<rparr> = c"
  by auto

text \<open>
  Claim C2.  The claim asks that of two representations of one card the one with the
  greater \<open>updatedAt\<close> is retained.  The upsert retains the submitted one: when the
  table holds the reviewed card (updated at 150) and a device submits its stale copy of
  the same card (updated at 100), the stale copy replaces the reviewed card.  In the
  other order the reviewed card replaces the stale one.
\<close>

theorem sync_stale_copy_replaces_newer:
  "id_card card_X = id_card card_X_reviewed
   \<and> updatedAt card_X_reviewed = 150
   \<and> updatedAt card_X = 100
   \<and> cards_sync ''u1'' (Some [card_X_reviewed]) [card_X] = (Status_ok, [card_X_reviewed])
   \<and> cards_sync ''u1'' (Some [card_X]) [card_X_reviewed] = (Status_ok, [card_X])
   \<and> map updatedAt (get_cards ''u1'' (snd (cards_sync ''u1'' (Some [card_X]) [card_X_reviewed])))
       = [100]"
  by (simp add: sample_facts cards_sync_def sync_transaction_def insert_run_def
      insert_or_replace_def get_cards_def stamp_same)

text \<open>
  Claim C7.  Replaying a sync of the same batch onto a table that has already applied it
  changes nothing, for the transaction and for the route; and for a table \<open>A\<close> whose
  keys are distinct, merging into \<open>A\<close> what the user reads after merging \<open>B\<close> into
  \<open>A\<close> gives the user the same cards as merging \<open>B\<close> into \<open>A\<close>.
\<close>

theorem sync_idempotent:
  "sync_transaction uid cs (sync_transaction uid cs db) = sync_transaction uid cs db
   \<and> cards_sync uid (Some cs) (snd (cards_sync uid (Some cs) db)) = cards_sync uid (Some cs) db
   \<and> (distinct (map id_card A) \<longrightarrow>
        get_cards uid (sync_transaction uid (get_cards uid (sync_transaction uid B A)) A)
          = get_cards uid (sync_transaction uid B A))"
  using sync_replay [of uid cs db] get_cards_merge [of A uid B]
  by (simp add: cards_sync_def)

theorem sync_idempotent_witness:
  "distinct (map id_card [card_X, bob_card])
   \<and> get_cards ''u1'' (sync_transaction ''u1'' [card_X_reviewed] [card_X, bob_card])
       = [card_X_reviewed]
   \<and> get_cards ''u1'' (sync_transaction ''u1''
         (get_cards ''u1'' (sync_transaction ''u1'' [card_X_reviewed] [card_X, bob_card]))
         [card_X, bob_card]) = [card_X_reviewed]"
proof -
  have d: "distinct (map id_card [card_X, bob_card])"
    by (simp add: sample_facts)
  have g: "get_cards ''u1'' (sync_transaction ''u1'' [card_X_reviewed] [card_X, bob_card])
       = [card_X_reviewed]"
    by (simp add: sample_facts sync_transaction_def insert_run_def insert_or_replace_def
        get_cards_def stamp_same)
  from d sync_idempotent [of "''u1''" "[]" "[]" "[card_X, bob_card]" "[card_X_reviewed]"]
  have "get_cards ''u1'' (sync_transaction ''u1''
         (get_cards ''u1'' (sync_transaction ''u1'' [card_X_reviewed] [card_X, bob_card]))
         [card_X, bob_card])
      = get_cards ''u1'' (sync_transaction ''u1'' [card_X_reviewed] [card_X, bob_card])"
    by blast
  with d g show ?thesis by simp
qed

text \<open>
  The route with the table \<^verbatim>\<open>users\<close>: a replay changes nothing either, and the
  answer and the table do not depend on the \<open>userId\<close> fields of the submitted cards.
\<close>

lemma cards_sync_route_replay:
  "cards_sync_route users uid body (snd (cards_sync_route users uid body db))
     = cards_sync_route users uid body db"
  by (simp add: cards_sync_route_def sync_replay split: option.splits)

lemma cards_sync_route_ignores_userId:
  "cards_sync_route users uid (Some (map (\<lambda>c. c\<lparr> userId := f c \<rparr>) cs)) db
     = cards_sync_route users uid (Some cs) db"
  by (simp add: cards_sync_route_def sync_ignores_userId)

lemma cards_sync_route_written_userId:
  assumes "r \<in> set (snd (cards_sync_route users uid (Some cs) db))"
    and "fst (cards_sync_route users uid (Some cs) db) = Status_ok"
    and "id_card r \<in> ids cs"
  shows "userId r = uid"
  using assms
  by (auto simp add: cards_sync_route_def split: if_splits dest: sync_written_userId)

text \<open>
  Claim C10.  The claim ends: a sync can never create or overwrite a card under another
  user's identity.  The key of the table is \<open>id\<close> alone, and the upsert does not look at
  the owner of the row it replaces.  With two registered users, the table holding the
  reviewed card of \<open>u1\<close>, a sync by \<open>u2\<close> of a card with the same \<open>id\<close> succeeds and
  replaces that row by a row of \<open>u2\<close>: the card of \<open>u1\<close> is overwritten, and \<open>u1\<close>
  reads no card any more.  The route \<^verbatim>\<open>DELETE /api/cards/:id\<close>, in contrast, names
  both \<open>id\<close> and \<open>userId\<close> and leaves the card of \<open>u1\<close> alone when \<open>u2\<close> asks.
\<close>

theorem sync_overwrites_card_of_other_user:
  "get_cards ''u1'' [card_X_reviewed] = [card_X_reviewed]
   \<and> cards_sync_route {''u1'', ''u2''} ''u2'' (Some [card_X]) [card_X_reviewed]
       = (Status_ok, [card_X\<lparr> userId := ''u2'' \<rparr>])
   \<and> get_cards ''u1''
        (snd (cards_sync_route {''u1'', ''u2''} ''u2'' (Some [card_X]) [card_X_reviewed])) = []
   \<and> cards_delete ''u2'' ''x1'' [card_X_reviewed] = [card_X_reviewed]"
  by (simp add: sample_facts cards_sync_route_def sync_transaction_def insert_run_def
      insert_or_replace_def get_cards_def cards_delete_def)

end
